theory Spec2Isabelle
  imports Complex_Main "HOL-Library.Word" "HOL-Library.Log_Nat" "HOL-Library.AList"
begin

section \<open>Data model\<close>

text \<open>
  The program (\<^verbatim>\<open>src/main.py\<close>) parses a one-line schema (``codeform'') into a list of
  fields and encodes or decodes one value per field into a byte buffer.

  Text that enters the program (the schema, enum labels, the values typed at the prompts)
  is a \<^typ>\<open>string\<close>: HOL characters are the code points U+0000 to U+00FF, so the model
  covers Latin-1 text, and the character classes below are Python's on that range.
  Text that leaves the UTF-8 decoder is a list of code points, since a buffer may hold
  any UTF-8 sequence.  Bytes are 8-bit words.
\<close>

type_synonym byte = "8 word"
type_synonym bits = "bool list"
type_synonym pystr = "nat list"

datatype FieldType = INTEGER | FLOAT | STRING | ENUM

text \<open>
  \<^verbatim>\<open>Field.value\<close> is untyped in the source: the parser stores a bit size for
  \<^verbatim>\<open>i\<close> and \<^verbatim>\<open>f\<close>, \<^verbatim>\<open>None\<close> for \<^verbatim>\<open>s\<close> and the list of labels for \<^verbatim>\<open>e\<close>.
\<close>

datatype FieldValue = NoValue | Bits nat | Items "string list"

record Field =
  name :: string
  type :: FieldType
  val :: FieldValue

text \<open>Every \<^verbatim>\<open>raise\<close> of the source and every exception of the runtime is a value.\<close>

datatype error =
    ValueError
  | TypeError
  | IndexError
  | EOFError
  | UnicodeDecodeError
  | CreationError
  | ReadError
  | InterpretError
  | InvalidEnumValue "string list" string
  | WordMustStartWithLetter char nat
  | Expected char nat char
  | ExpectedType nat char
  | ExpectedBitsize "nat list" nat int

text \<open>
  What \<^verbatim>\<open>Field.decode\<close> returns: a Python int, a float (kept as the width and the
  big-endian bytes it was unpacked from, which determine it), or a str.
\<close>

datatype pyval = PyInt int | PyFloat nat "byte list" | PyStr pystr

definition codes :: "string \<Rightarrow> pystr" where
  "codes s = map of_char s"

section \<open>The bitstring library, as far as the program uses it\<close>

text \<open>
  A bitstring is a list of bits, most significant first.  \<^verbatim>\<open>pack\<close> with the token
  \<^verbatim>\<open>uint:n\<close> or \<^verbatim>\<open>int:n\<close> builds the \<open>n\<close>-bit big-endian (two's complement) pattern and
  raises \<^verbatim>\<open>CreationError\<close> when the value does not fit; \<^verbatim>\<open>bytes:n\<close> takes \<open>n\<close> bytes and
  raises \<^verbatim>\<open>CreationError\<close> when the value given has another length; \<^verbatim>\<open>tobytes\<close> pads
  with zero bits on the right up to a whole byte; \<^verbatim>\<open>unpack\<close> reads from the front of the
  stream and raises \<^verbatim>\<open>ReadError\<close> when the stream is too short, before it looks at whether
  the width can be interpreted (\<^verbatim>\<open>InterpretError\<close>: no bits for an integer, a float that is
  not 16, 32 or 64 bits wide).
\<close>

fun uint_bits :: "nat \<Rightarrow> nat \<Rightarrow> bits" where
  "uint_bits 0 v = []"
| "uint_bits (Suc n) v = uint_bits n (v div 2) @ [odd v]"

definition bits_uint :: "bits \<Rightarrow> nat" where
  "bits_uint bs = foldl (\<lambda>a b. 2 * a + (if b then 1 else 0)) 0 bs"

definition pack_uint :: "nat \<Rightarrow> nat \<Rightarrow> error + bits" where
  "pack_uint n v =
     (if n = 0 then Inr []
      else if 2 ^ n \<le> v then Inl CreationError
      else Inr (uint_bits n v))"

definition pack_int :: "nat \<Rightarrow> int \<Rightarrow> error + bits" where
  "pack_int n v =
     (if n = 0 then Inr []
      else if v < - (2 ^ (n - 1)) \<or> 2 ^ (n - 1) \<le> v then Inl CreationError
      else Inr (uint_bits n (nat (v mod 2 ^ n))))"

definition from_bytes :: "byte list \<Rightarrow> bits" where
  "from_bytes bs = concat (map (\<lambda>b. uint_bits 8 (unat b)) bs)"

definition pack_bytes :: "nat \<Rightarrow> byte list \<Rightarrow> error + bits" where
  "pack_bytes n data =
     (if n = 0 then Inr []
      else if length data \<noteq> n then Inl CreationError
      else Inr (from_bytes data))"

function tobytes :: "bits \<Rightarrow> byte list" where
  "tobytes bs =
     (if bs = [] then []
      else of_nat (bits_uint (take 8 (bs @ replicate 7 False))) # tobytes (drop 8 bs))"
  by pat_completeness auto
termination
  by (relation "measure length") auto

lemmas [simp del] = tobytes.simps

definition unpack_uint :: "nat \<Rightarrow> bits \<Rightarrow> error + nat" where
  "unpack_uint n stream =
     (if length stream < n then Inl ReadError
      else if n = 0 then Inl InterpretError
      else Inr (bits_uint (take n stream)))"

definition unpack_int :: "nat \<Rightarrow> bits \<Rightarrow> error + int" where
  "unpack_int n stream =
     (if length stream < n then Inl ReadError
      else if n = 0 then Inl InterpretError
      else (let u = bits_uint (take n stream)
            in Inr (if 2 ^ (n - 1) \<le> u then int u - 2 ^ n else int u)))"

definition unpack_float :: "nat \<Rightarrow> bits \<Rightarrow> error + pyval" where
  "unpack_float n stream =
     (if length stream < n then Inl ReadError
      else if n \<notin> {16, 32, 64} then Inl InterpretError
      else Inr (PyFloat n (tobytes (take n stream))))"

section \<open>Python built-ins\<close>

text \<open>
  \<^verbatim>\<open>int(text)\<close> in base 10: white space around the literal is dropped, one sign is
  allowed, and single underscores may separate digits.  On Latin-1 text the white space
  that \<^verbatim>\<open>int\<close> drops is U+0009 to U+000D, U+0020, U+0085 and U+00A0 (the separators
  U+001C to U+001F are white space for \<^verbatim>\<open>str.isspace\<close> but not for \<^verbatim>\<open>int\<close>, which rejects
  them), and the decimal digits are \<^verbatim>\<open>0\<close> to \<^verbatim>\<open>9\<close>.  (The interpreter's optional limit on
  the number of digits is not modelled.)
\<close>

definition int_space :: "char \<Rightarrow> bool" where
  "int_space c = (let n = (of_char c :: nat)
     in (9 \<le> n \<and> n \<le> 13) \<or> n = 32 \<or> n = 133 \<or> n = 160)"

definition isdecimal :: "char \<Rightarrow> bool" where
  "isdecimal c = (let n = (of_char c :: nat) in 48 \<le> n \<and> n \<le> 57)"

definition strip :: "string \<Rightarrow> string" where
  "strip s = rev (dropWhile int_space (rev (dropWhile int_space s)))"

fun underscores_ok :: "string \<Rightarrow> bool" where
  "underscores_ok [] = True"
| "underscores_ok [c] = isdecimal c"
| "underscores_ok (c # d # s) =
     (if c = CHR ''_'' then isdecimal d \<and> underscores_ok (d # s)
      else isdecimal c \<and> underscores_ok (d # s))"

definition digits_value :: "string \<Rightarrow> nat" where
  "digits_value s =
     foldl (\<lambda>a c. 10 * a + (of_char c - 48)) 0 (filter (\<lambda>c. c \<noteq> CHR ''_'') s)"

definition literal_ok :: "string \<Rightarrow> bool" where
  "literal_ok s = (s \<noteq> [] \<and> isdecimal (hd s) \<and> underscores_ok s)"

definition py_int :: "string \<Rightarrow> error + int" where
  "py_int text =
     (let s = strip text;
          neg = (s \<noteq> [] \<and> hd s = CHR ''-'');
          body = (if s \<noteq> [] \<and> (hd s = CHR ''-'' \<or> hd s = CHR ''+'') then tl s else s)
      in if literal_ok body
         then Inr (if neg then - int (digits_value body) else int (digits_value body))
         else Inl ValueError)"

text \<open>\<^verbatim>\<open>text.encode("utf-8")\<close> on Latin-1 text: one byte below U+0080, two bytes from there.\<close>

definition utf8_char :: "char \<Rightarrow> byte list" where
  "utf8_char c = (let n = (of_char c :: nat)
     in if n < 128 then [of_nat n] else [of_nat (192 + n div 64), of_nat (128 + n mod 64)])"

definition utf8_encode :: "string \<Rightarrow> byte list" where
  "utf8_encode s = concat (map utf8_char s)"

text \<open>
  \<^verbatim>\<open>data.decode("utf-8")\<close>, strict: the shortest form only, no surrogates, nothing
  above U+10FFFF.  \<open>utf8_first\<close> reads one code point and tells how many continuation
  bytes it took.
\<close>

definition cont :: "nat \<Rightarrow> nat \<Rightarrow> nat \<Rightarrow> bool" where
  "cont lo hi b = (lo \<le> b \<and> b \<le> hi)"

fun utf8_first :: "nat list \<Rightarrow> (nat \<times> nat) option" where
  "utf8_first [] = None"
| "utf8_first (b0 # bs) =
     (if b0 < 128 then Some (b0, 0)
      else if 194 \<le> b0 \<and> b0 \<le> 223 then
        (case bs of
           b1 # _ \<Rightarrow> if cont 128 191 b1 then Some ((b0 - 192) * 64 + (b1 - 128), 1) else None
         | _ \<Rightarrow> None)
      else if 224 \<le> b0 \<and> b0 \<le> 239 then
        (case bs of
           b1 # b2 # _ \<Rightarrow>
             if cont (if b0 = 224 then 160 else 128) (if b0 = 237 then 159 else 191) b1
                \<and> cont 128 191 b2
             then Some ((b0 - 224) * 4096 + (b1 - 128) * 64 + (b2 - 128), 2) else None
         | _ \<Rightarrow> None)
      else if 240 \<le> b0 \<and> b0 \<le> 244 then
        (case bs of
           b1 # b2 # b3 # _ \<Rightarrow>
             if cont (if b0 = 240 then 144 else 128) (if b0 = 244 then 143 else 191) b1
                \<and> cont 128 191 b2 \<and> cont 128 191 b3
             then Some ((b0 - 240) * 262144 + (b1 - 128) * 4096 + (b2 - 128) * 64 + (b3 - 128), 3)
             else None
         | _ \<Rightarrow> None)
      else None)"

function utf8_decode_nat :: "nat list \<Rightarrow> error + pystr" where
  "utf8_decode_nat bs =
     (if bs = [] then Inr []
      else case utf8_first bs of
             None \<Rightarrow> Inl UnicodeDecodeError
           | Some (cp, k) \<Rightarrow>
               (case utf8_decode_nat (drop (Suc k) bs) of
                  Inl e \<Rightarrow> Inl e
                | Inr cps \<Rightarrow> Inr (cp # cps)))"
  by pat_completeness auto
termination
  by (relation "measure length") auto

lemmas [simp del] = utf8_decode_nat.simps

definition utf8_decode :: "byte list \<Rightarrow> error + pystr" where
  "utf8_decode data = utf8_decode_nat (map unat data)"

text \<open>\<^verbatim>\<open>data.index(0)\<close>: the position of the first zero byte, \<^verbatim>\<open>ValueError\<close> without one.\<close>

fun index0 :: "byte list \<Rightarrow> error + nat" where
  "index0 [] = Inl ValueError"
| "index0 (b # bs) =
     (if b = 0 then Inr 0
      else case index0 bs of Inl e \<Rightarrow> Inl e | Inr i \<Rightarrow> Inr (Suc i))"

text \<open>\<^verbatim>\<open>items.index(x)\<close> for a label known to be in the list: its first position.\<close>

fun index_of :: "string list \<Rightarrow> string \<Rightarrow> nat" where
  "index_of [] x = 0"
| "index_of (y # ys) x = (if y = x then 0 else Suc (index_of ys x))"

definition py_len :: "pyval \<Rightarrow> error + nat" where
  "py_len v = (case v of PyStr s \<Rightarrow> Inr (length s) | _ \<Rightarrow> Inl TypeError)"

section \<open>Field codec\<close>

text \<open>
  \<^verbatim>\<open>float(text)\<close> and the \<^verbatim>\<open>float:n\<close> token need IEEE-754 arithmetic, which is outside
  this development: the two conversions are parameters of the encoder.
\<close>

record 'f float_codec =
  py_float :: "string \<Rightarrow> error + 'f"
  pack_float :: "nat \<Rightarrow> 'f \<Rightarrow> error + bits"

text \<open>
  \<^verbatim>\<open>math.ceil(math.log2(len(self.value) + 1))\<close>, with the logarithm taken exactly.
\<close>

definition enum_bits :: "string list \<Rightarrow> nat" where
  "enum_bits items = nat \<lceil>log 2 (real (length items + 1))\<rceil>"

definition Field_encode :: "'f float_codec \<Rightarrow> Field \<Rightarrow> string \<Rightarrow> error + byte list" where
  "Field_encode fc f input =
     (case type f of
        INTEGER \<Rightarrow>
          (case py_int input of
             Inl e \<Rightarrow> Inl e
           | Inr v \<Rightarrow>
               (case val f of
                  Bits n \<Rightarrow> map_sum id tobytes (pack_int n v)
                | _ \<Rightarrow> Inl CreationError))
      | FLOAT \<Rightarrow>
          (case py_float fc input of
             Inl e \<Rightarrow> Inl e
           | Inr x \<Rightarrow>
               (case val f of
                  Bits n \<Rightarrow> map_sum id tobytes (pack_float fc n x)
                | _ \<Rightarrow> Inl CreationError))
      | STRING \<Rightarrow>
          (let v = input @ [CHR 0x00]
           in map_sum id tobytes (pack_bytes (length v) (utf8_encode v)))
      | ENUM \<Rightarrow>
          (case val f of
             Items items \<Rightarrow>
               if input \<notin> set items then Inl (InvalidEnumValue items input)
               else map_sum id tobytes (pack_uint (enum_bits items) (index_of items input))
           | _ \<Rightarrow> Inl TypeError))"

definition Field_decode :: "Field \<Rightarrow> byte list \<Rightarrow> nat \<Rightarrow> error + pyval" where
  "Field_decode f input offset =
     (let stream = from_bytes (drop offset input)
      in case type f of
           INTEGER \<Rightarrow>
             (case val f of
                Bits n \<Rightarrow> map_sum id PyInt (unpack_int n stream)
              | _ \<Rightarrow> Inl InterpretError)
         | FLOAT \<Rightarrow>
             (case val f of
                Bits n \<Rightarrow> unpack_float n stream
              | _ \<Rightarrow> Inl InterpretError)
         | STRING \<Rightarrow>
             (case index0 (drop offset input) of
                Inl e \<Rightarrow> Inl e
              | Inr zero_at \<Rightarrow>
                  map_sum id PyStr
                    (utf8_decode (tobytes (from_bytes (take zero_at (drop offset input))))))
         | ENUM \<Rightarrow>
             (case val f of
                Items items \<Rightarrow>
                  (case unpack_uint (enum_bits items) stream of
                     Inl e \<Rightarrow> Inl e
                   | Inr i \<Rightarrow>
                       if i < length items then Inr (PyStr (codes (items ! i)))
                       else Inl IndexError)
              | _ \<Rightarrow> Inl TypeError))"

text \<open>
  \<^verbatim>\<open>Field.size\<close> divides with \<^verbatim>\<open>/\<close>, so it returns a float for \<^verbatim>\<open>i\<close> and \<^verbatim>\<open>f\<close>;
  the caller truncates it with \<^verbatim>\<open>int\<close>.
\<close>

definition size :: "Field \<Rightarrow> error + real" where
  "size f =
     (case type f of
        INTEGER \<Rightarrow> (case val f of Bits n \<Rightarrow> Inr (real n / 8) | _ \<Rightarrow> Inl TypeError)
      | FLOAT \<Rightarrow> (case val f of Bits n \<Rightarrow> Inr (real n / 8) | _ \<Rightarrow> Inl TypeError)
      | STRING \<Rightarrow> Inr 0
      | ENUM \<Rightarrow>
          (case val f of
             Items items \<Rightarrow> Inr (of_int \<lceil>log 2 (real (length items + 1)) / 8\<rceil>)
           | _ \<Rightarrow> Inl TypeError))"

definition py_trunc :: "real \<Rightarrow> nat" where
  "py_trunc x = nat \<lfloor>x\<rfloor>"

section \<open>Form codec\<close>

text \<open>A \<^verbatim>\<open>Form\<close> holds its list of fields and nothing else.\<close>

type_synonym Form = "Field list"

text \<open>
  \<^verbatim>\<open>Form.encode\<close> reads one line per field from the prompt; the lines are the second
  argument, and reading past the last one is \<^verbatim>\<open>EOFError\<close>.
\<close>

fun encode_loop :: "'f float_codec \<Rightarrow> Field list \<Rightarrow> string list \<Rightarrow> byte list \<Rightarrow> error + byte list" where
  "encode_loop fc [] inputs v = Inr v"
| "encode_loop fc (f # fs) [] v = Inl EOFError"
| "encode_loop fc (f # fs) (i # inputs) v =
     (case Field_encode fc f i of
        Inl e \<Rightarrow> Inl e
      | Inr b \<Rightarrow> encode_loop fc fs inputs (v @ b))"

definition Form_encode :: "'f float_codec \<Rightarrow> Form \<Rightarrow> string list \<Rightarrow> error + byte list" where
  "Form_encode fc form inputs = encode_loop fc form inputs []"

text \<open>
  \<^verbatim>\<open>Form.decode\<close> fills a dict, which keeps the position of a key that is written again:
  an association list under \<^const>\<open>AList.update\<close>.
\<close>

fun decode_loop :: "Field list \<Rightarrow> byte list \<Rightarrow> (string \<times> pyval) list \<Rightarrow> nat \<Rightarrow> error + (string \<times> pyval) list" where
  "decode_loop [] input obj offset = Inr obj"
| "decode_loop (f # fs) input obj offset =
     (case Field_decode f input offset of
        Inl e \<Rightarrow> Inl e
      | Inr v \<Rightarrow>
          (let obj' = AList.update (name f) v obj
           in if type f = STRING
              then (case py_len v of
                      Inl e \<Rightarrow> Inl e
                    | Inr n \<Rightarrow> decode_loop fs input obj' (offset + (n + 1)))
              else (case size f of
                      Inl e \<Rightarrow> Inl e
                    | Inr r \<Rightarrow> decode_loop fs input obj' (offset + py_trunc r))))"

definition Form_decode :: "Form \<Rightarrow> byte list \<Rightarrow> error + (string \<times> pyval) list" where
  "Form_decode form input = decode_loop form input [] 0"

section \<open>Schema parser\<close>

text \<open>
  Python's \<^verbatim>\<open>str.isalpha\<close>, \<^verbatim>\<open>str.isnumeric\<close> and \<^verbatim>\<open>str.isalnum\<close> on the code points
  U+0000 to U+00FF.
\<close>

definition isalpha :: "char \<Rightarrow> bool" where
  "isalpha c = (let n = (of_char c :: nat)
     in (65 \<le> n \<and> n \<le> 90) \<or> (97 \<le> n \<and> n \<le> 122) \<or> n = 170 \<or> n = 181 \<or> n = 186
        \<or> (192 \<le> n \<and> n \<le> 214) \<or> (216 \<le> n \<and> n \<le> 246) \<or> (248 \<le> n \<and> n \<le> 255))"

definition isnumeric :: "char \<Rightarrow> bool" where
  "isnumeric c = (let n = (of_char c :: nat)
     in (48 \<le> n \<and> n \<le> 57) \<or> n = 178 \<or> n = 179 \<or> n = 185 \<or> (188 \<le> n \<and> n \<le> 190))"

definition isalnum :: "char \<Rightarrow> bool" where
  "isalnum c = (isalpha c \<or> isnumeric c)"

text \<open>
  The specification's \<open>letter\<close>, by its data model (names match
  \<^verbatim>\<open>[A-Za-z][A-Za-z0-9_]*\<close>): the 52 ASCII letters.  The parser does not use it; it is
  here to be compared with \<open>isalpha\<close>.
\<close>

definition ascii_letter :: "char \<Rightarrow> bool" where
  "ascii_letter c = (let n = (of_char c :: nat)
     in (65 \<le> n \<and> n \<le> 90) \<or> (97 \<le> n \<and> n \<le> 122))"

record FormParser =
  source :: string
  length' :: nat
  cursor :: nat
  char :: char

definition advance :: "FormParser \<Rightarrow> FormParser" where
  "advance p =
     (let p = p\<lparr>cursor := cursor p + 1\<rparr>
      in if cursor p < length' p then p\<lparr>char := source p ! cursor p\<rparr>
         else p\<lparr>char := CHR 0x00\<rparr>)"

definition expect :: "char \<Rightarrow> FormParser \<Rightarrow> error + FormParser" where
  "expect c p =
     (if char p = c then Inr (advance p)
      else Inl (Expected c (cursor p) (char p)))"

definition slice :: "string \<Rightarrow> nat \<Rightarrow> nat \<Rightarrow> string" where
  "slice s a b = take (b - a) (drop a s)"

lemma advance_simps [simp]:
  "cursor (advance p) = cursor p + 1"
  "length' (advance p) = length' p"
  "source (advance p) = source p"
  by (simp_all add: advance_def Let_def)

lemma advance_char:
  "char (advance p) = (if cursor p + 1 < length' p then source p ! (cursor p + 1) else CHR 0x00)"
  by (simp add: advance_def Let_def)

function word_loop :: "FormParser \<Rightarrow> FormParser" where
  "word_loop p =
     (if isalnum (char p) \<or> char p = CHR ''_'' then word_loop (advance p) else p)"
  by pat_completeness auto
termination
proof (relation "measure (\<lambda>p. (length' p - cursor p)
          + (if isalnum (char p) \<or> char p = CHR ''_'' then 1 else 0))")
  show "wf (measure (\<lambda>p. (length' p - cursor p)
          + (if isalnum (char p) \<or> char p = CHR ''_'' then 1 else 0)))" by simp
next
  fix p :: FormParser
  assume "isalnum (char p) \<or> char p = CHR ''_''"
  then show "(advance p, p) \<in> measure (\<lambda>p. (length' p - cursor p)
          + (if isalnum (char p) \<or> char p = CHR ''_'' then 1 else 0))"
    by (auto simp: advance_char isalnum_def isalpha_def isnumeric_def)
qed

lemmas [simp del] = word_loop.simps

definition collect_word :: "FormParser \<Rightarrow> error + (string \<times> FormParser)" where
  "collect_word p =
     (let start = cursor p
      in if \<not> isalpha (char p) then Inl (WordMustStartWithLetter (char p) (cursor p))
         else (let p = word_loop p in Inr (slice (source p) start (cursor p), p)))"

function numeric_loop :: "FormParser \<Rightarrow> FormParser" where
  "numeric_loop p = (if isnumeric (char p) then numeric_loop (advance p) else p)"
  by pat_completeness auto
termination
proof (relation "measure (\<lambda>p. (length' p - cursor p) + (if isnumeric (char p) then 1 else 0))")
  show "wf (measure (\<lambda>p. (length' p - cursor p) + (if isnumeric (char p) then 1 else 0)))"
    by simp
next
  fix p :: FormParser
  assume "isnumeric (char p)"
  then show "(advance p, p)
      \<in> measure (\<lambda>p. (length' p - cursor p) + (if isnumeric (char p) then 1 else 0))"
    by (auto simp: advance_char isnumeric_def)
qed

lemmas [simp del] = numeric_loop.simps

definition collect_integer :: "FormParser \<Rightarrow> string \<times> FormParser" where
  "collect_integer p =
     (let start = cursor p; p = numeric_loop p
      in (slice (source p) start (cursor p), p))"

definition collect_bitsize_integer :: "FormParser \<Rightarrow> error + (nat \<times> FormParser)" where
  "collect_bitsize_integer p =
     (if isnumeric (char p) then
        (case collect_integer p of (text, p) \<Rightarrow>
           (case py_int text of
              Inl e \<Rightarrow> Inl e
            | Inr bitsize \<Rightarrow>
                if bitsize \<notin> {8, 16, 32, 64}
                then Inl (ExpectedBitsize [8, 16, 32, 64] (cursor p) bitsize)
                else Inr (nat bitsize, p)))
      else Inr (8, p))"

definition collect_bitsize_float :: "FormParser \<Rightarrow> error + (nat \<times> FormParser)" where
  "collect_bitsize_float p =
     (if isnumeric (char p) then
        (case collect_integer p of (text, p) \<Rightarrow>
           (case py_int text of
              Inl e \<Rightarrow> Inl e
            | Inr bitsize \<Rightarrow>
                if bitsize \<notin> {32, 64}
                then Inl (ExpectedBitsize [32, 64] (cursor p) bitsize)
                else Inr (nat bitsize, p)))
      else Inr (32, p))"

lemma word_loop_keeps:
  "source (word_loop p) = source p \<and> length' (word_loop p) = length' p
   \<and> cursor p \<le> cursor (word_loop p)"
proof (induction p rule: word_loop.induct)
  case (1 p)
  show ?case
  proof (cases "isalnum (char p) \<or> char p = CHR ''_''")
    case True
    with 1 show ?thesis by (simp add: word_loop.simps [of p])
  next
    case False
    then show ?thesis by (simp add: word_loop.simps [of p])
  qed
qed

lemma numeric_loop_keeps:
  "source (numeric_loop p) = source p \<and> length' (numeric_loop p) = length' p
   \<and> cursor p \<le> cursor (numeric_loop p)"
proof (induction p rule: numeric_loop.induct)
  case (1 p)
  show ?case
  proof (cases "isnumeric (char p)")
    case True
    with 1 show ?thesis by (simp add: numeric_loop.simps [of p])
  next
    case False
    then show ?thesis by (simp add: numeric_loop.simps [of p])
  qed
qed

lemma collect_word_keeps:
  "collect_word p = Inr (w, q) \<Longrightarrow>
     source q = source p \<and> length' q = length' p \<and> cursor p \<le> cursor q"
  using word_loop_keeps [of p]
  by (auto simp: collect_word_def Let_def split: if_splits)

lemma expect_keeps:
  "expect c p = Inr q \<Longrightarrow>
     source q = source p \<and> length' q = length' p \<and> cursor q = cursor p + 1"
  by (auto simp: expect_def split: if_splits)

lemma collect_bitsize_integer_keeps:
  "collect_bitsize_integer p = Inr (n, q) \<Longrightarrow>
     source q = source p \<and> length' q = length' p \<and> cursor p \<le> cursor q"
  using numeric_loop_keeps [of p]
  by (auto simp: collect_bitsize_integer_def collect_integer_def Let_def
           split: if_splits sum.splits)

lemma collect_bitsize_float_keeps:
  "collect_bitsize_float p = Inr (n, q) \<Longrightarrow>
     source q = source p \<and> length' q = length' p \<and> cursor p \<le> cursor q"
  using numeric_loop_keeps [of p]
  by (auto simp: collect_bitsize_float_def collect_integer_def Let_def
           split: if_splits sum.splits)

function enum_loop :: "FormParser \<Rightarrow> string list \<Rightarrow> error + (string list \<times> FormParser)" where
  "enum_loop p items =
     (case collect_word p of
        Inl e \<Rightarrow> Inl e
      | Inr (w, p) \<Rightarrow>
          (let items = items @ [w]
           in if char p \<noteq> CHR '';''
              then (case expect (CHR '','') p of
                      Inl e \<Rightarrow> Inl e
                    | Inr p \<Rightarrow> enum_loop p items)
              else Inr (items, advance p)))"
  by pat_completeness auto

definition at_char :: "FormParser \<Rightarrow> bool" where
  "at_char p = (cursor p < length' p \<or> char p = CHR 0x00)"

lemma at_char_advance [simp]: "at_char (advance p)"
  by (simp add: at_char_def advance_char)

lemma word_loop_at_char: "at_char p \<Longrightarrow> at_char (word_loop p)"
proof (induction p rule: word_loop.induct)
  case (1 p)
  then show ?case by (simp add: word_loop.simps [of p])
qed

lemma numeric_loop_at_char: "at_char p \<Longrightarrow> at_char (numeric_loop p)"
proof (induction p rule: numeric_loop.induct)
  case (1 p)
  then show ?case by (simp add: numeric_loop.simps [of p])
qed

lemma isalpha_isalnum: "isalpha c \<Longrightarrow> isalnum c"
  by (simp add: isalnum_def)

lemma collect_word_progress:
  assumes "collect_word p = Inr (w, q)"
  shows "cursor p < cursor q" and "at_char q"
proof -
  from assms have a: "isalpha (char p)" and q: "q = word_loop p"
    by (auto simp: collect_word_def Let_def split: if_splits)
  from a have q': "q = word_loop (advance p)"
    by (simp add: q word_loop.simps [of p] isalpha_isalnum)
  show "cursor p < cursor q"
    using word_loop_keeps [of "advance p"] by (simp add: q')
  show "at_char q"
    by (simp add: q' word_loop_at_char)
qed

lemma enum_loop_step:
  assumes "collect_word p = Inr (w, p1)" and "expect (CHR '','') p1 = Inr p2"
  shows "length' p2 + 1 - cursor p2 < length' p + 1 - cursor p"
proof -
  from assms(2) have c: "char p1 = CHR '',''"
    by (simp add: expect_def split: if_splits)
  with collect_word_progress(2) [OF assms(1)] have "cursor p1 < length' p1"
    by (simp add: at_char_def)
  with collect_word_keeps [OF assms(1)] expect_keeps [OF assms(2)] show ?thesis
    by arith
qed

termination enum_loop
  apply (relation "measure (\<lambda>(p, items). length' p + 1 - cursor p)")
   apply simp
  apply clarsimp
  apply (drule (1) enum_loop_step)
  apply simp
  done

lemmas [simp del] = enum_loop.simps

definition collect_enum :: "FormParser \<Rightarrow> error + (string list \<times> FormParser)" where
  "collect_enum p =
     (case expect (CHR ''['') p of
        Inl e \<Rightarrow> Inl e
      | Inr p \<Rightarrow> enum_loop p [])"

definition collect_type_and_value ::
    "FormParser \<Rightarrow> error + ((FieldType \<times> FieldValue) \<times> FormParser)" where
  "collect_type_and_value p =
     (if char p = CHR ''i'' then
        (case collect_bitsize_integer (advance p) of
           Inl e \<Rightarrow> Inl e
         | Inr (n, p) \<Rightarrow> Inr ((INTEGER, Bits n), p))
      else if char p = CHR ''f'' then
        (case collect_bitsize_float (advance p) of
           Inl e \<Rightarrow> Inl e
         | Inr (n, p) \<Rightarrow> Inr ((FLOAT, Bits n), p))
      else if char p = CHR ''s'' then Inr ((STRING, NoValue), advance p)
      else if char p = CHR ''e'' then
        (case collect_enum (advance p) of
           Inl e \<Rightarrow> Inl e
         | Inr (items, p) \<Rightarrow> Inr ((ENUM, Items items), p))
      else Inl (ExpectedType (cursor p) (char p)))"

lemma enum_loop_keeps:
  "enum_loop p items = Inr (items', q) \<Longrightarrow>
     source q = source p \<and> length' q = length' p \<and> cursor p \<le> cursor q"
proof (induction p items rule: enum_loop.induct)
  case (1 p items)
  from "1.prems" obtain w p1 where cw: "collect_word p = Inr (w, p1)"
    by (auto simp: enum_loop.simps [of p items] split: sum.splits)
  note k1 = collect_word_keeps [OF cw]
  show ?case
  proof (cases "char p1 = CHR '';''")
    case True
    with "1.prems" cw have "q = advance p1"
      by (simp add: enum_loop.simps [of p items])
    with k1 show ?thesis by simp
  next
    case False
    with "1.prems" cw obtain p2 where ex: "expect (CHR '','') p1 = Inr p2"
        and rec: "enum_loop p2 (items @ [w]) = Inr (items', q)"
      by (auto simp: enum_loop.simps [of p items] split: sum.splits)
    from "1.IH" [OF cw refl refl False ex rec] expect_keeps [OF ex] k1
    show ?thesis by simp
  qed
qed

lemma collect_enum_keeps:
  "collect_enum p = Inr (items, q) \<Longrightarrow>
     source q = source p \<and> length' q = length' p \<and> cursor p \<le> cursor q"
  by (auto simp: collect_enum_def split: sum.splits
           dest!: expect_keeps enum_loop_keeps)

lemma collect_type_and_value_keeps:
  "collect_type_and_value p = Inr (tv, q) \<Longrightarrow>
     source q = source p \<and> length' q = length' p \<and> cursor p \<le> cursor q"
  by (auto simp: collect_type_and_value_def split: if_splits sum.splits
           dest!: collect_bitsize_integer_keeps collect_bitsize_float_keeps collect_enum_keeps)

function parse_loop :: "FormParser \<Rightarrow> Form \<Rightarrow> error + (Form \<times> FormParser)" where
  "parse_loop p form =
     (if cursor p < length' p then
        (case collect_word p of
           Inl e \<Rightarrow> Inl e
         | Inr (field_name, p) \<Rightarrow>
             (case expect (CHR '':'') p of
                Inl e \<Rightarrow> Inl e
              | Inr p \<Rightarrow>
                  (case collect_type_and_value p of
                     Inl e \<Rightarrow> Inl e
                   | Inr ((field_type, field_value), p) \<Rightarrow>
                       (let form = form @ [\<lparr>name = field_name, type = field_type,
                                            val = field_value\<rparr>]
                        in if char p \<noteq> CHR '',''
                           then Inr (form, p)
                           else parse_loop (advance p) form))))
      else Inr (form, p))"
  by pat_completeness auto

lemma parse_loop_step:
  assumes "cursor p < length' p" and "collect_word p = Inr (w, p1)"
    and "expect c p1 = Inr p2" and "collect_type_and_value p2 = Inr (tv, p3)"
  shows "length' (advance p3) - cursor (advance p3) < length' p - cursor p"
  using assms(1) collect_word_keeps [OF assms(2)] expect_keeps [OF assms(3)]
    collect_type_and_value_keeps [OF assms(4)]
  by simp arith

termination parse_loop
  apply (relation "measure (\<lambda>(p, form). length' p - cursor p)")
   apply simp
  apply clarsimp
  apply (drule (3) parse_loop_step)
  apply simp
  done

lemmas [simp del] = parse_loop.simps

definition parse_state :: "string \<Rightarrow> error + (Form \<times> FormParser)" where
  "parse_state codeform =
     (if codeform = [] then Inl IndexError
      else parse_loop \<lparr>source = codeform, length' = length codeform, cursor = 0,
                        char = codeform ! 0\<rparr> [])"

definition parse_form :: "string \<Rightarrow> error + Form" where
  "parse_form codeform = map_sum id fst (parse_state codeform)"

section \<open>Properties of the parser\<close>

text \<open>
  C9.  Parsing the empty schema raises while the parser is being initialised: the first
  character is fetched from an empty text, which is an \<^verbatim>\<open>IndexError\<close>.  The result is
  neither an empty form nor one of the parser's own errors with a position.
\<close>

theorem parse_form_empty:
  "parse_form [] = Inl IndexError"
  by (simp add: parse_form_def parse_state_def)

text \<open>
  C7.  The parser tests the first character of a word with \<^verbatim>\<open>str.isalpha\<close>, which holds
  for more than the letters \<^verbatim>\<open>A\<close> to \<^verbatim>\<open>Z\<close> and \<^verbatim>\<open>a\<close> to \<^verbatim>\<open>z\<close> of the specification.  A
  non-empty schema whose first character is not alphabetic in that sense is rejected at
  position 0 with the ``word must start with a letter'' error; \<^verbatim>\<open>1name:i8\<close> is such a
  schema.
\<close>

theorem parse_form_first_not_letter:
  assumes "s \<noteq> []" and "\<not> isalpha (hd s)"
  shows "parse_form s = Inl (WordMustStartWithLetter (hd s) 0)"
proof -
  from assms(1) have hd: "s ! 0 = hd s"
    by (simp add: hd_conv_nth)
  let ?p = "\<lparr>source = s, length' = length s, cursor = 0, char = s ! 0\<rparr>"
  from assms(2) have "collect_word ?p = Inl (WordMustStartWithLetter (hd s) 0)"
    by (simp add: collect_word_def hd)
  with assms(1) have "parse_loop ?p [] = Inl (WordMustStartWithLetter (hd s) 0)"
    by (simp add: parse_loop.simps [of ?p])
  with assms(1) show ?thesis
    by (simp add: parse_form_def parse_state_def)
qed

theorem parse_form_first_not_letter_witness:
  "''1name:i8'' \<noteq> [] \<and> \<not> isalpha (hd ''1name:i8'')
   \<and> parse_form ''1name:i8'' = Inl (WordMustStartWithLetter (CHR ''1'') 0)"
  using parse_form_first_not_letter [of "''1name:i8''"]
  by (simp add: isalpha_def)

text \<open>
  The claim as stated, refuted: the schema of the four characters U+00E9 (e with acute
  accent), \<^verbatim>\<open>:\<close>, \<^verbatim>\<open>i\<close>, \<^verbatim>\<open>8\<close> does not start with a letter of the specification, and it
  is parsed into a form with one 8-bit integer field.
\<close>

theorem parse_form_latin1_letter:
  "\<not> ascii_letter (hd [CHR 0xE9, CHR '':'', CHR ''i'', CHR ''8''])
   \<and> parse_form [CHR 0xE9, CHR '':'', CHR ''i'', CHR ''8'']
       = Inr [\<lparr>name = [CHR 0xE9], type = INTEGER, val = Bits 8\<rparr>]"
proof -
  have "parse_form [CHR 0xE9, CHR '':'', CHR ''i'', CHR ''8'']
       = Inr [\<lparr>name = [CHR 0xE9], type = INTEGER, val = Bits 8\<rparr>]"
    by code_simp
  then show ?thesis
    by (simp add: ascii_letter_def)
qed

section \<open>Properties of the field codec\<close>

lemma enum_bits_code [code]: "enum_bits items = ceillog2 (length items + 1)"
  by (simp add: enum_bits_def ceillog2_def)

lemma length_uint_bits [simp]: "length (uint_bits n v) = n"
  by (induction n arbitrary: v) simp_all

lemma length_tobytes: "length (tobytes bs) = (length bs + 7) div 8"
proof (induction bs rule: tobytes.induct)
  case (1 bs)
  show ?case
  proof (cases "bs = []")
    case True
    then show ?thesis by (simp add: tobytes.simps [of "[]"])
  next
    case False
    then have "length bs > 0" by simp
    have "length (tobytes bs) = Suc (length (tobytes (drop 8 bs)))"
      using False by (simp add: tobytes.simps [of bs])
    also have "\<dots> = Suc ((length bs - 8 + 7) div 8)"
      using 1 False by simp
    also have "\<dots> = (length bs + 7) div 8"
    proof -
      from \<open>length bs > 0\<close> have "length bs + 7 = (length bs - 1) + 8" by simp
      then have e: "(length bs + 7) div 8 = Suc ((length bs - 1) div 8)"
        by simp
      show ?thesis
      proof (cases "length bs < 8")
        case True
        then show ?thesis by (simp add: e)
      next
        case False
        then have "length bs - 8 + 7 = length bs - 1" by simp
        then show ?thesis by (simp only: e)
      qed
    qed
    finally show ?thesis .
  qed
qed

lemma ceiling_div8:
  fixes x :: real
  shows "\<lceil>x / 8\<rceil> = (\<lceil>x\<rceil> + 7) div 8"
proof (rule ceiling_unique)
  let ?k = "\<lceil>x\<rceil>"
  let ?m = "(?k + 7) div 8"
  have k1: "real_of_int ?k - 1 < x" and k2: "x \<le> real_of_int ?k"
    by linarith+
  have m1: "8 * ?m \<le> ?k + 7" and m2: "?k \<le> 8 * ?m"
    by presburger+
  from m2 have "real_of_int ?k \<le> real_of_int (8 * ?m)"
    by (rule of_int_le_iff [THEN iffD2])
  with k2 show "x / 8 \<le> real_of_int ?m" by linarith
  from m1 have "real_of_int (8 * ?m) \<le> real_of_int (?k + 7)"
    by (rule of_int_le_iff [THEN iffD2])
  with k1 show "real_of_int ?m - 1 < x / 8" by simp
qed

lemma py_trunc_real [simp]: "py_trunc (real n) = n"
  by (simp add: py_trunc_def)

lemma enum_bits_int: "int (enum_bits items) = \<lceil>log 2 (real (length items + 1))\<rceil>"
proof -
  have "0 \<le> log 2 (real (length items + 1))"
    by simp
  then have "0 \<le> \<lceil>log 2 (real (length items + 1))\<rceil>"
    by linarith
  then show ?thesis
    by (simp add: enum_bits_def)
qed

lemma size_ENUM:
  assumes "type f = ENUM" and "val f = Items items"
  shows "size f = Inr (real ((enum_bits items + 7) div 8))"
proof -
  have "\<lceil>log 2 (real (length items + 1)) / 8\<rceil> = (int (enum_bits items) + 7) div 8"
    by (simp only: ceiling_div8 enum_bits_int)
  also have "\<dots> = int ((enum_bits items + 7) div 8)"
    by (simp add: zdiv_int)
  finally have "real_of_int \<lceil>log 2 (real (length items + 1)) / 8\<rceil>
      = real ((enum_bits items + 7) div 8)"
    by simp
  with assms show ?thesis
    by (simp add: size_def)
qed

text \<open>The same function without the logarithm of a real, for evaluation.\<close>

lemma size_code [code]:
  "size f =
     (case type f of
        INTEGER \<Rightarrow> (case val f of Bits n \<Rightarrow> Inr (real n / 8) | _ \<Rightarrow> Inl TypeError)
      | FLOAT \<Rightarrow> (case val f of Bits n \<Rightarrow> Inr (real n / 8) | _ \<Rightarrow> Inl TypeError)
      | STRING \<Rightarrow> Inr 0
      | ENUM \<Rightarrow>
          (case val f of
             Items items \<Rightarrow> Inr (real ((enum_bits items + 7) div 8))
           | _ \<Rightarrow> Inl TypeError))"
proof (cases "type f")
  case ENUM
  then show ?thesis
  proof (cases "val f")
    case (Items items)
    with ENUM show ?thesis by (simp add: size_ENUM)
  qed (simp_all add: size_def)
qed (simp_all add: size_def)

lemma pack_uint_length: "pack_uint n v = Inr bs \<Longrightarrow> length bs = n"
  by (auto simp: pack_uint_def split: if_splits)

lemma Field_encode_ENUM:
  assumes "type f = ENUM" and "val f = Items items" and "Field_encode fc f input = Inr bs"
  shows "input \<in> set items
    \<and> (\<exists>b. pack_uint (enum_bits items) (index_of items input) = Inr b \<and> bs = tobytes b)"
proof -
  from assms have e: "(if input \<notin> set items then Inl (InvalidEnumValue items input)
      else map_sum id tobytes (pack_uint (enum_bits items) (index_of items input))) = Inr bs"
    by (simp add: Field_encode_def)
  then have i: "input \<in> set items"
    by (simp split: if_splits)
  with e have "map_sum id tobytes (pack_uint (enum_bits items) (index_of items input)) = Inr bs"
    by simp
  then have "\<exists>b. pack_uint (enum_bits items) (index_of items input) = Inr b \<and> bs = tobytes b"
    by (cases "pack_uint (enum_bits items) (index_of items input)") auto
  with i show ?thesis by simp
qed

lemma Field_encode_ENUM_length:
  assumes "type f = ENUM" and "val f = Items items" and "Field_encode fc f input = Inr bs"
  shows "length bs = (enum_bits items + 7) div 8"
  using Field_encode_ENUM [OF assms]
  by (auto simp: length_tobytes pack_uint_length)

text \<open>
  C4.  The claim says that for some number of labels the encoder's byte count (the
  \<open>enum_bits\<close> bits of the index, padded to whole bytes) and the decoder's offset step
  (\<^verbatim>\<open>math.ceil(math.log2(n + 1) / 8)\<close>) differ by one.  They never do: rounding up before or
  after the division by 8 gives the same number (\<open>ceiling_div8\<close>, for every real, so also
  for whatever value \<^verbatim>\<open>math.log2\<close> returns).  For every enum field and every accepted
  label, the truncated \<open>size\<close> is the length of the encoded payload.
\<close>

theorem enum_encode_length_eq_size:
  assumes "type f = ENUM" and "val f = Items items" and "Field_encode fc f input = Inr bs"
  shows "map_sum id py_trunc (size f) = Inr (length bs)"
  using Field_encode_ENUM_length [OF assms] size_ENUM [OF assms(1,2)]
  by simp

theorem enum_encode_length_eq_size_witness:
  "type \<lparr>name = ''s'', type = ENUM, val = Items [''on'', ''off'']\<rparr> = ENUM
   \<and> val \<lparr>name = ''s'', type = ENUM, val = Items [''on'', ''off'']\<rparr> = Items [''on'', ''off'']
   \<and> Field_encode
        (\<lparr>py_float = \<lambda>_. Inl ValueError, pack_float = \<lambda>_ _. Inl CreationError\<rparr>
          :: unit float_codec)
        \<lparr>name = ''s'', type = ENUM, val = Items [''on'', ''off'']\<rparr> ''off'' = Inr [64]
   \<and> map_sum id py_trunc (size \<lparr>name = ''s'', type = ENUM, val = Items [''on'', ''off'']\<rparr>)
        = Inr (length [64 :: byte])"
proof -
  let ?f = "\<lparr>name = ''s'', type = ENUM, val = Items [''on'', ''off'']\<rparr>"
  let ?fc = "\<lparr>py_float = \<lambda>_. Inl ValueError, pack_float = \<lambda>_ _. Inl CreationError\<rparr>
    :: unit float_codec"
  have e: "Field_encode ?fc ?f ''off'' = Inr [64]"
    by code_simp
  have t: "type ?f = ENUM" and v: "val ?f = Items [''on'', ''off'']"
    by simp_all
  from enum_encode_length_eq_size [OF t v e] e show ?thesis
    by simp
qed

text \<open>
  The claim as stated, refuted: no enum field with at least one label has an encoding
  whose length is one more or one less than its offset step.
\<close>

theorem enum_widths_never_differ:
  "\<not> (\<exists>(fc :: unit float_codec) f items input bs r.
        type f = ENUM \<and> val f = Items items \<and> 1 \<le> length items
        \<and> Field_encode fc f input = Inr bs \<and> size f = Inr r
        \<and> (length bs = py_trunc r + 1 \<or> py_trunc r = length bs + 1))"
proof
  assume "\<exists>(fc :: unit float_codec) f items input bs r.
        type f = ENUM \<and> val f = Items items \<and> 1 \<le> length items
        \<and> Field_encode fc f input = Inr bs \<and> size f = Inr r
        \<and> (length bs = py_trunc r + 1 \<or> py_trunc r = length bs + 1)"
  then obtain fc :: "unit float_codec" and f items input bs r
    where a: "type f = ENUM" "val f = Items items" "Field_encode fc f input = Inr bs"
      and r: "size f = Inr r"
      and d: "length bs = py_trunc r + 1 \<or> py_trunc r = length bs + 1"
    by blast
  from Field_encode_ENUM_length [OF a] size_ENUM [OF a(1,2)] r
  have "py_trunc r = length bs" by simp
  with d show False by simp
qed

lemma ceillog2_4: "ceillog2 4 = 2" by code_simp
lemma ceillog2_256: "ceillog2 256 = 8" by code_simp
lemma ceillog2_257: "ceillog2 257 = 9" by code_simp

text \<open>
  One round of the decoder's loop over an enum field that decodes: the value is stored
  under the field's name and the offset moves on by the bytes of the index.
\<close>

lemma decode_step_enum:
  assumes "type f = ENUM" and "val f = Items items" and "Field_decode f input offset = Inr v"
  shows "decode_loop (f # fs) input obj offset
       = decode_loop fs input (AList.update (name f) v obj) (offset + (enum_bits items + 7) div 8)"
  using assms size_ENUM [OF assms(1,2)] by (simp add: Let_def)

text \<open>
  C5.  The width of an enum at the boundaries, at encode time and in the decoder's offset
  step: with 3 labels the index takes 2 bits, the encoded payload is 1 byte and
  \<^verbatim>\<open>Form.decode\<close> goes on with the next field 1 byte further; with 255 labels 8 bits, 1 byte
  and a step of 1; with 256 labels 9 bits, 2 bytes and a step of 2.
\<close>

theorem enum_width_boundaries:
  assumes "type f = ENUM" and "val f = Items items"
    and "Field_encode fc f text = Inr bs" and "Field_decode f input offset = Inr v"
  shows "(length items = 3 \<longrightarrow>
            enum_bits items = 2 \<and> length bs = 1
            \<and> decode_loop (f # fs) input obj offset
                = decode_loop fs input (AList.update (name f) v obj) (offset + 1))
       \<and> (length items = 255 \<longrightarrow>
            enum_bits items = 8 \<and> length bs = 1
            \<and> decode_loop (f # fs) input obj offset
                = decode_loop fs input (AList.update (name f) v obj) (offset + 1))
       \<and> (length items = 256 \<longrightarrow>
            enum_bits items = 9 \<and> length bs = 2
            \<and> decode_loop (f # fs) input obj offset
                = decode_loop fs input (AList.update (name f) v obj) (offset + 2))"
proof -
  note len = Field_encode_ENUM_length [OF assms(1,2,3)]
  note step = decode_step_enum [OF assms(1,2,4), of fs obj]
  have a: "length items = 3 \<Longrightarrow> enum_bits items = 2"
    by (simp add: enum_bits_code ceillog2_4)
  have b: "length items = 255 \<Longrightarrow> enum_bits items = 8"
    by (simp add: enum_bits_code ceillog2_256)
  have c: "length items = 256 \<Longrightarrow> enum_bits items = 9"
    by (simp add: enum_bits_code ceillog2_257)
  have "length items = 3 \<Longrightarrow> length bs = 1" and "length items = 255 \<Longrightarrow> length bs = 1"
    and "length items = 256 \<Longrightarrow> length bs = 2"
    by (simp_all add: len a b c)
  moreover have "length items = 3 \<Longrightarrow> decode_loop (f # fs) input obj offset
      = decode_loop fs input (AList.update (name f) v obj) (offset + 1)"
    by (simp only: step a) simp
  moreover have "length items = 255 \<Longrightarrow> decode_loop (f # fs) input obj offset
      = decode_loop fs input (AList.update (name f) v obj) (offset + 1)"
    by (simp only: step b) simp
  moreover have "length items = 256 \<Longrightarrow> decode_loop (f # fs) input obj offset
      = decode_loop fs input (AList.update (name f) v obj) (offset + 2)"
    by (simp only: step c) simp
  ultimately show ?thesis
    using a b c by blast
qed

theorem enum_width_boundaries_witness:
  "(let f = \<lparr>name = ''e'', type = ENUM, val = Items [''a'', ''b'', ''c'']\<rparr>;
        n = \<lparr>name = ''n'', type = INTEGER, val = Bits 8\<rparr>
    in type f = ENUM \<and> val f = Items [''a'', ''b'', ''c''] \<and> length [''a'', ''b'', ''c''] = 3
       \<and> Field_encode
           (\<lparr>py_float = \<lambda>_. Inl ValueError, pack_float = \<lambda>_ _. Inl CreationError\<rparr>
             :: unit float_codec) f ''c'' = Inr [128]
       \<and> Field_decode f [128, 5] 0 = Inr (PyStr (codes ''c''))
       \<and> enum_bits [''a'', ''b'', ''c''] = 2
       \<and> decode_loop [f, n] [128, 5] [] 0
            = decode_loop [n] [128, 5] [(''e'', PyStr (codes ''c''))] 1
       \<and> decode_loop [f, n] [128, 5] [] 0
            = Inr [(''e'', PyStr (codes ''c'')), (''n'', PyInt 5)])
   \<and> (let f = \<lparr>name = ''e'', type = ENUM, val = Items (replicate 255 ''a'')\<rparr>;
        n = \<lparr>name = ''n'', type = INTEGER, val = Bits 8\<rparr>
    in type f = ENUM \<and> val f = Items (replicate 255 ''a'') \<and> length (replicate 255 ''a'') = 255
       \<and> Field_encode
           (\<lparr>py_float = \<lambda>_. Inl ValueError, pack_float = \<lambda>_ _. Inl CreationError\<rparr>
             :: unit float_codec) f ''a'' = Inr [0]
       \<and> Field_decode f [0, 5] 0 = Inr (PyStr (codes ''a''))
       \<and> enum_bits (replicate 255 ''a'') = 8
       \<and> decode_loop [f, n] [0, 5] [] 0
            = decode_loop [n] [0, 5] [(''e'', PyStr (codes ''a''))] 1
       \<and> decode_loop [f, n] [0, 5] [] 0
            = Inr [(''e'', PyStr (codes ''a'')), (''n'', PyInt 5)])
   \<and> (let f = \<lparr>name = ''e'', type = ENUM, val = Items (replicate 256 ''a'')\<rparr>;
        n = \<lparr>name = ''n'', type = INTEGER, val = Bits 8\<rparr>
    in type f = ENUM \<and> val f = Items (replicate 256 ''a'') \<and> length (replicate 256 ''a'') = 256
       \<and> Field_encode
           (\<lparr>py_float = \<lambda>_. Inl ValueError, pack_float = \<lambda>_ _. Inl CreationError\<rparr>
             :: unit float_codec) f ''a'' = Inr [0, 0]
       \<and> Field_decode f [0, 0, 5] 0 = Inr (PyStr (codes ''a''))
       \<and> enum_bits (replicate 256 ''a'') = 9
       \<and> decode_loop [f, n] [0, 0, 5] [] 0
            = decode_loop [n] [0, 0, 5] [(''e'', PyStr (codes ''a''))] 2
       \<and> decode_loop [f, n] [0, 0, 5] [] 0
            = Inr [(''e'', PyStr (codes ''a'')), (''n'', PyInt 5)])"
proof -
  let ?fc = "\<lparr>py_float = \<lambda>_. Inl ValueError, pack_float = \<lambda>_ _. Inl CreationError\<rparr>
    :: unit float_codec"
  let ?n = "\<lparr>name = ''n'', type = INTEGER, val = Bits 8\<rparr>"
  let ?f3 = "\<lparr>name = ''e'', type = ENUM, val = Items [''a'', ''b'', ''c'']\<rparr>"
  let ?f255 = "\<lparr>name = ''e'', type = ENUM, val = Items (replicate 255 ''a'')\<rparr>"
  let ?f256 = "\<lparr>name = ''e'', type = ENUM, val = Items (replicate 256 ''a'')\<rparr>"
  have e3: "Field_encode ?fc ?f3 ''c'' = Inr [128]" by code_simp
  have e255: "Field_encode ?fc ?f255 ''a'' = Inr [0]" by code_simp
  have e256: "Field_encode ?fc ?f256 ''a'' = Inr [0, 0]" by code_simp
  have d3: "Field_decode ?f3 [128, 5] 0 = Inr (PyStr (codes ''c''))" by code_simp
  have d255: "Field_decode ?f255 [0, 5] 0 = Inr (PyStr (codes ''a''))" by code_simp
  have d256: "Field_decode ?f256 [0, 0, 5] 0 = Inr (PyStr (codes ''a''))" by code_simp
  have r3: "decode_loop [?n] [128, 5] [(''e'', PyStr (codes ''c''))] 1
      = Inr [(''e'', PyStr (codes ''c'')), (''n'', PyInt 5)]" by code_simp
  have r255: "decode_loop [?n] [0, 5] [(''e'', PyStr (codes ''a''))] 1
      = Inr [(''e'', PyStr (codes ''a'')), (''n'', PyInt 5)]" by code_simp
  have r256: "decode_loop [?n] [0, 0, 5] [(''e'', PyStr (codes ''a''))] 2
      = Inr [(''e'', PyStr (codes ''a'')), (''n'', PyInt 5)]" by code_simp
  have r256': "decode_loop [?n] [0, 0, 5] [(''e'', PyStr (codes ''a''))] (Suc (Suc 0))
      = Inr [(''e'', PyStr (codes ''a'')), (''n'', PyInt 5)]"
    using r256 by (simp only: numeral_2_eq_2)
  have t3: "type ?f3 = ENUM" "val ?f3 = Items [''a'', ''b'', ''c'']" by simp_all
  have t255: "type ?f255 = ENUM" "val ?f255 = Items (replicate 255 ''a'')" by simp_all
  have t256: "type ?f256 = ENUM" "val ?f256 = Items (replicate 256 ''a'')" by simp_all
  from enum_width_boundaries [OF t3 e3 d3, of "[?n]" "[]"]
    enum_width_boundaries [OF t255 e255 d255, of "[?n]" "[]"]
    enum_width_boundaries [OF t256 e256 d256, of "[?n]" "[]"]
    e3 e255 e256 d3 d255 d256 r3 r255 r256 r256'
  show ?thesis by (simp add: Let_def del: decode_loop.simps)
qed

lemma length_from_bytes: "length (from_bytes bs) = 8 * length bs"
  by (induction bs) (simp_all add: from_bytes_def)

text \<open>
  C8.  Decoding an enum field from a buffer that has the bytes of the index at the offset:
  the leading \<open>enum_bits\<close> bits are read as an unsigned big-endian number \<open>i\<close>; the result
  is the label at position \<open>i\<close> when \<open>i\<close> is less than the number of labels, and an error
  otherwise (\<^verbatim>\<open>IndexError\<close> from the list; with no label at all there are no bits to
  interpret).  So decoding fails exactly when the index is at least the number of labels.
\<close>

theorem enum_decode_index:
  assumes "type f = ENUM" and "val f = Items items"
    and "(enum_bits items + 7) div 8 \<le> length input - offset"
  shows "Field_decode f input offset =
     (let i = bits_uint (take (enum_bits items) (from_bytes (drop offset input)))
      in if i < length items then Inr (PyStr (codes (items ! i)))
         else Inl (if items = [] then InterpretError else IndexError))"
proof -
  let ?stream = "from_bytes (drop offset input)"
  from assms(3) have enough: "\<not> length ?stream < enum_bits items"
    by (simp add: length_from_bytes)
  show ?thesis
  proof (cases "items = []")
    case True
    then have "enum_bits items = 0"
      by (simp add: enum_bits_def)
    with True assms(1,2) show ?thesis
      by (simp add: Field_decode_def unpack_uint_def Let_def)
  next
    case False
    then have "1 < real (length items + 1)"
      by simp
    then have "0 < log 2 (real (length items + 1))"
      by simp
    then have "enum_bits items \<noteq> 0"
      by (simp add: enum_bits_def)
    with False enough assms(1,2) show ?thesis
      by (simp add: Field_decode_def unpack_uint_def Let_def)
  qed
qed

theorem enum_decode_index_witness:
  "(let f = \<lparr>name = ''e'', type = ENUM, val = Items [''a'', ''b'', ''c'']\<rparr>
    in type f = ENUM \<and> val f = Items [''a'', ''b'', ''c'']
       \<and> (enum_bits [''a'', ''b'', ''c''] + 7) div 8 \<le> length [128 :: byte] - 0
       \<and> bits_uint (take (enum_bits [''a'', ''b'', ''c'']) (from_bytes (drop 0 [128]))) = 2
       \<and> Field_decode f [128] 0 = Inr (PyStr (codes ''c''))
       \<and> (enum_bits [''a'', ''b'', ''c''] + 7) div 8 \<le> length [192 :: byte] - 0
       \<and> bits_uint (take (enum_bits [''a'', ''b'', ''c'']) (from_bytes (drop 0 [192]))) = 3
       \<and> Field_decode f [192] 0 = Inl IndexError)"
proof -
  let ?items = "[''a'', ''b'', ''c'']"
  let ?f = "\<lparr>name = ''e'', type = ENUM, val = Items ?items\<rparr>"
  have t: "type ?f = ENUM" "val ?f = Items ?items" by simp_all
  have b: "enum_bits ?items = 2" by code_simp
  have i1: "bits_uint (take 2 (from_bytes (drop 0 [128]))) = 2" by code_simp
  have i2: "bits_uint (take 2 (from_bytes (drop 0 [192]))) = 3" by code_simp
  have n1: "(enum_bits ?items + 7) div 8 \<le> length [128 :: byte] - 0" by (simp add: b)
  have n2: "(enum_bits ?items + 7) div 8 \<le> length [192 :: byte] - 0" by (simp add: b)
  from enum_decode_index [OF t n1] enum_decode_index [OF t n2] i1 i2 b
  show ?thesis by (simp add: Let_def)
qed

text \<open>
  C3.  \<^verbatim>\<open>Field.encode\<close> for a string builds the token \<^verbatim>\<open>bytes:n\<close> with \<open>n\<close> the number of
  characters of the text and its terminator, and packs the UTF-8 bytes under it.  For
  the one-character text U+00E9 that is \<^verbatim>\<open>bytes:2\<close> with the three bytes C3 A9 00, which
  bitstring refuses: no byte is produced, where the specification has three.
\<close>

theorem Field_encode_STRING_non_ascii:
  "Field_encode fc \<lparr>name = ''t'', type = STRING, val = NoValue\<rparr> [CHR 0xE9] = Inl CreationError
   \<and> utf8_encode [CHR 0xE9] = [0xC3, 0xA9]"
  by (simp add: Field_encode_def pack_bytes_def utf8_encode_def utf8_char_def Let_def)

text \<open>
  One round of the decoder's loop over a string field that decodes: the offset moves on
  by the number of characters of the text, plus one.
\<close>

lemma decode_step_string:
  assumes "type f = STRING" and "Field_decode f input offset = Inr (PyStr s)"
  shows "decode_loop (f # fs) input obj offset
       = decode_loop fs input (AList.update (name f) (PyStr s) obj) (offset + (length s + 1))"
  using assms by (simp add: Let_def py_len_def)

text \<open>
  C2.  The buffer C3 A9 00 05 under the form \<^verbatim>\<open>a:s,b:i8\<close>: the text is the one character
  U+00E9, whose terminator is at index 2, so three bytes belong to the string and the
  integer is the 5 at offset 3.  \<^verbatim>\<open>Form.decode\<close> moves on by the length of the text plus
  one, which is 2, and decodes the integer from the terminator: 0.
\<close>

theorem Form_decode_string_offset:
  "Form_decode [\<lparr>name = ''a'', type = STRING, val = NoValue\<rparr>,
                \<lparr>name = ''b'', type = INTEGER, val = Bits 8\<rparr>] [0xC3, 0xA9, 0, 5]
     = Inr [(''a'', PyStr [233]), (''b'', PyInt 0)]
   \<and> index0 (drop 0 [0xC3, 0xA9, 0, 5]) = Inr 2
   \<and> Field_decode \<lparr>name = ''b'', type = INTEGER, val = Bits 8\<rparr> [0xC3, 0xA9, 0, 5] (2 - 0 + 1)
     = Inr (PyInt 5)"
  by code_simp

section \<open>The parser on a longer source\<close>


definition extend_source :: "string \<Rightarrow> FormParser \<Rightarrow> FormParser" where
  "extend_source t p =
     p\<lparr>source := source p @ t, length' := length' p + length t,
       char := (if cursor p < length' p then char p else hd t)\<rparr>"

definition stops_word :: "char \<Rightarrow> bool" where
  "stops_word c = (\<not> isalnum c \<and> c \<noteq> CHR ''_'')"

lemma extend_source_simps [simp]:
  "source (extend_source t p) = source p @ t"
  "length' (extend_source t p) = length' p + length t"
  "cursor (extend_source t p) = cursor p"
  "char (extend_source t p) = (if cursor p < length' p then char p else hd t)"
  by (simp_all add: extend_source_def)

lemma nul_not_alnum [simp]: "\<not> isalnum (CHR 0x00)" "\<not> isnumeric (CHR 0x00)" "\<not> isalpha (CHR 0x00)"
  by (simp_all add: isalnum_def isalpha_def isnumeric_def)


lemma stops_word_alpha: "stops_word c \<Longrightarrow> \<not> isalpha c"
  by (simp add: stops_word_def isalnum_def)
























end
